theory Spec2Isabelle
  imports Complex_Main "HOL-Library.AList"
begin

section \<open>Status vocabulary (analysis\_status.py)\<close>

text \<open>
  \<^verbatim>\<open>AnalysisStatus\<close> is an \<^verbatim>\<open>enum.IntEnum\<close> whose five members are numbered by
  \<^verbatim>\<open>enum.auto()\<close> in declaration order.
\<close>

datatype AnalysisStatus = OKEvent | SkipEvent | QuitLoop | OKFunc | ErrFunc

fun status_value :: "AnalysisStatus \<Rightarrow> int" where
  "status_value OKEvent = 1"
| "status_value SkipEvent = 2"
| "status_value QuitLoop = 3"
| "status_value OKFunc = 4"
| "status_value ErrFunc = 5"

text \<open>The Python exceptions that the modelled code can raise.\<close>

datatype py_error = NameError | KeyError | ZeroDivisionError | AssertionError

section \<open>The flag registry (event\_flags.py)\<close>

text \<open>
  An \<^verbatim>\<open>EventFlags\<close> instance carries the four private attributes \<^verbatim>\<open>__key\<close>,
  \<^verbatim>\<open>__count\<close>, \<^verbatim>\<open>__isset\<close> and \<^verbatim>\<open>__accum\<close>. The two numeric attributes are Python
  floats, and the only operations the class applies to them are the constants \<^verbatim>\<open>0.0\<close>
  and \<^verbatim>\<open>1.0\<close> and the addition of \<^verbatim>\<open>+=\<close>, which rounds. Their type is therefore left
  open: \<open>'a\<close> is any type with \<open>0\<close>, \<open>1\<close> and \<open>+\<close>, and no law of \<open>+\<close> is assumed
  (not that it is associative, not that \<open>0\<close> is neutral), so \<open>x + y\<close> stands for the float
  that Python computes from \<open>x\<close> and \<open>y\<close>, whatever its rounding. Concrete inputs are
  written at type \<open>real\<close> with small whole numbers, on which the addition of doubles is
  exact.

  The class attribute \<^verbatim>\<open>__dict_of_flags\<close> is a Python dict, which keeps insertion
  order; it is modelled as an association list. Every value stored in it is a fresh
  object made by \<^verbatim>\<open>define\<close>, so no two keys alias one object and a value semantics
  for the entries is faithful. Keys are strings.
\<close>

record 'a flag =
  key :: string
  count :: 'a
  isset :: bool
  accum :: 'a

type_synonym 'a registry = "(string \<times> 'a flag) list"

text \<open>\<^verbatim>\<open>d[k]\<close> read access raises \<^verbatim>\<open>KeyError\<close> on a missing key.\<close>

definition dict_getitem :: "'a registry \<Rightarrow> string \<Rightarrow> py_error + 'a flag" where
  "dict_getitem r k = (case map_of r k of None \<Rightarrow> Inl KeyError | Some f \<Rightarrow> Inr f)"

text \<open>
  \<^verbatim>\<open>d[k].attr = v\<close>: look the object up (or raise), then mutate it in place; the
  entry keeps its position in the dict.
\<close>

definition setattr_flag :: "'a registry \<Rightarrow> string \<Rightarrow> ('a flag \<Rightarrow> 'a flag) \<Rightarrow> py_error + 'a registry" where
  "setattr_flag r k upd =
     (case dict_getitem r k of Inl e \<Rightarrow> Inl e | Inr f \<Rightarrow> Inr (AList.update k (upd f) r))"

definition ndef :: "'a registry \<Rightarrow> nat" where
  "ndef r = length r"

definition has :: "'a registry \<Rightarrow> string \<Rightarrow> bool" where
  "has r k = (if k \<in> set (map fst r) then True else False)"

subsection \<open>The status accessor\<close>

text \<open>
  \<^verbatim>\<open>status\<close> returns the bare name \<^verbatim>\<open>__status\<close>. Inside a class body a name
  with two leading underscores is mangled to \<^verbatim>\<open>_EventFlags__status\<close>, and a bare
  name is resolved in the local scope (only \<^verbatim>\<open>cls\<close>), then in the module's globals
  (the imported \<^verbatim>\<open>stt\<close> and the class \<^verbatim>\<open>EventFlags\<close>), then in the builtins
  (which hold no such name); class attributes are not searched. A name found nowhere raises
  \<^verbatim>\<open>NameError\<close>.
\<close>

datatype 'a py_value = StatusVal AnalysisStatus | ClassObj string | RegistryObj "'a registry"

definition mangle :: "string \<Rightarrow> string \<Rightarrow> string" where
  "mangle cls name = ''_'' @ cls @ name"

definition class_attributes :: "'a registry \<Rightarrow> (string \<times> 'a py_value) list" where
  "class_attributes r =
     [(mangle ''EventFlags'' ''__dict_of_flags'', RegistryObj r),
      (mangle ''EventFlags'' ''__status'', StatusVal OKEvent)]"

definition module_globals :: "(string \<times> 'a py_value) list" where
  "module_globals = [(''stt'', ClassObj ''AnalysisStatus''), (''EventFlags'', ClassObj ''EventFlags'')]"

definition lookup_name :: "(string \<times> 'a py_value) list \<Rightarrow> string \<Rightarrow> py_error + 'a py_value" where
  "lookup_name locals name =
     (case map_of locals name of Some v \<Rightarrow> Inr v
      | None \<Rightarrow> (case map_of module_globals name of Some v \<Rightarrow> Inr v | None \<Rightarrow> Inl NameError))"

definition status :: "'a registry \<Rightarrow> py_error + 'a py_value" where
  "status r = lookup_name [(''cls'', ClassObj ''EventFlags'')] (mangle ''EventFlags'' ''__status'')"

subsection \<open>Name disambiguation and the constructor\<close>

text \<open>\<^verbatim>\<open>'{:d}'.format(iter)\<close> for the non-negative counter of \<^verbatim>\<open>__newkey\<close>.\<close>

definition digit_char :: "nat \<Rightarrow> char" where
  "digit_char d = char_of (48 + d)"

fun format_d :: "nat \<Rightarrow> string" where
  "format_d n = (if n < 10 then [digit_char n] else format_d (n div 10) @ [digit_char (n mod 10)])"

definition candidate :: "string \<Rightarrow> nat \<Rightarrow> string" where
  "candidate k iter = k @ ''-'' @ format_d iter"

text \<open>
  The decimal rendering is injective (it can be read back), so the candidates
  \<open>candidate k 2\<close>, \<open>candidate k 3\<close>, ... are pairwise different. The search of
  \<^verbatim>\<open>__newkey\<close> therefore leaves the finitely many registered names behind.
\<close>

declare format_d.simps [simp del]

definition parse_d :: "string \<Rightarrow> nat" where
  "parse_d s = foldl (\<lambda>a c. 10 * a + (of_char c - 48)) 0 s"

lemma of_char_digit_char: "d < 10 \<Longrightarrow> of_char (digit_char d) = (48 + d :: nat)"
  by (simp add: digit_char_def)

lemma parse_format_d: "parse_d (format_d n) = n"
proof (induction n rule: format_d.induct)
  case (1 n)
  show ?case
  proof (cases "n < 10")
    case True
    then show ?thesis
      by (simp add: format_d.simps [of n] parse_d_def of_char_digit_char)
  next
    case False
    with 1 have ih: "parse_d (format_d (n div 10)) = n div 10" by simp
    have "format_d n = format_d (n div 10) @ [digit_char (n mod 10)]"
      using False by (simp add: format_d.simps [of n])
    then have "parse_d (format_d n) =
        10 * parse_d (format_d (n div 10)) + (of_char (digit_char (n mod 10)) - 48)"
      by (simp add: parse_d_def)
    also have "\<dots> = 10 * (n div 10) + n mod 10"
      by (simp add: ih of_char_digit_char)
    finally show ?thesis by simp
  qed
qed

lemma format_d_inj: "format_d m = format_d n \<Longrightarrow> m = n"
  by (metis parse_format_d)

lemma candidate_inj: "candidate k i = candidate k j \<Longrightarrow> i = j"
  by (simp add: candidate_def format_d_inj)

lemma filter_shrinks:
  assumes "x \<in> set xs" and "P x" and "\<not> Q x" and imp: "\<And>y. Q y \<Longrightarrow> P y"
  shows "length (filter Q xs) < length (filter P xs)"
proof -
  have "filter Q xs = filter Q (filter P xs)"
    using imp by (auto intro: filter_cong)
  moreover have "x \<in> set (filter P xs)"
    using assms by simp
  ultimately show ?thesis
    using assms(3) by (metis length_filter_less)
qed

text \<open>
  The \<^verbatim>\<open>while True\<close> loop of \<^verbatim>\<open>__newkey\<close>, from the current value of \<^verbatim>\<open>iter\<close>.
  It terminates because the registered names of the form \<open>candidate k j\<close> with
  \<open>j \<ge> iter\<close> become fewer at every turn.
\<close>

function newkey_from :: "'a registry \<Rightarrow> string \<Rightarrow> nat \<Rightarrow> string" where
  "newkey_from r k iter =
     (if has r (candidate k iter) = False then candidate k iter
      else newkey_from r k (iter + 1))"
  by pat_completeness auto
termination
proof (relation
    "measure (\<lambda>(r, k, iter). length (filter (\<lambda>c. \<exists>j\<ge>iter. c = candidate k j) (map fst r)))")
  show "wf (measure (\<lambda>(r, k, iter).
      length (filter (\<lambda>c. \<exists>j\<ge>iter. c = candidate k j) (map fst r))))"
    by simp
next
  fix r :: "'a registry" and k :: string and iter :: nat
  assume "has r (candidate k iter) \<noteq> False"
  then have mem: "candidate k iter \<in> set (map fst r)"
    by (simp add: has_def split: if_splits)
  have "length (filter (\<lambda>c. \<exists>j\<ge>iter + 1. c = candidate k j) (map fst r))
        < length (filter (\<lambda>c. \<exists>j\<ge>iter. c = candidate k j) (map fst r))"
  proof (rule filter_shrinks [OF mem])
    show "\<exists>j\<ge>iter. candidate k iter = candidate k j" by blast
    show "\<not> (\<exists>j\<ge>iter + 1. candidate k iter = candidate k j)"
      using candidate_inj by fastforce
    show "\<And>y. \<exists>j\<ge>iter + 1. y = candidate k j \<Longrightarrow> \<exists>j\<ge>iter. y = candidate k j"
      by (metis add_leD1)
  qed
  then show "((r, k, iter + 1), r, k, iter)
       \<in> measure (\<lambda>(r, k, iter).
            length (filter (\<lambda>c. \<exists>j\<ge>iter. c = candidate k j) (map fst r)))"
    by simp
qed

declare newkey_from.simps [simp del]

definition newkey :: "'a registry \<Rightarrow> string \<Rightarrow> string" where
  "newkey r k = newkey_from r k 2"

text \<open>
  The constructor \<^verbatim>\<open>__init__\<close>: it chooses the key and initialises the three
  counters. The line that would store the new object in the dict is commented out in the
  source, so the registry comes back as it was.
\<close>

definition EventFlags_init :: "('a::zero) registry \<Rightarrow> string \<Rightarrow> 'a flag \<times> 'a registry" where
  "EventFlags_init r k =
     (\<lparr>key = (if has r k then newkey r k else k), count = 0, isset = False, accum = 0\<rparr>, r)"

text \<open>\<^verbatim>\<open>define\<close> returns at once on a registered name; otherwise it stores a new
  object under the key the constructor chose.\<close>

definition "define" :: "('a::zero) registry \<Rightarrow> string \<Rightarrow> 'a registry" where
  "define r k =
     (if has r k = True then r
      else (case EventFlags_init r k of (temp, r') \<Rightarrow> AList.update (key temp) temp r'))"

subsection \<open>Writing and reading flags\<close>

text \<open>
  \<^verbatim>\<open>set\<close> and \<^verbatim>\<open>add\<close> return \<^verbatim>\<open>False\<close> on an unknown name and fall off
  the end (Python's \<^verbatim>\<open>None\<close>, here \<open>None\<close>) otherwise. \<^verbatim>\<open>set\<close> is a HOL
  constant, hence the suffix.
\<close>

definition set_evs :: "'a registry \<Rightarrow> string \<Rightarrow> 'a \<Rightarrow> py_error + (bool option \<times> 'a registry)" where
  "set_evs r k val =
     (if has r k = False then Inr (Some False, r)
      else (case setattr_flag r k (\<lambda>f. f\<lparr>count := val\<rparr>) of Inl e \<Rightarrow> Inl e
            | Inr r1 \<Rightarrow> (case setattr_flag r1 k (\<lambda>f. f\<lparr>isset := True\<rparr>) of Inl e \<Rightarrow> Inl e
                        | Inr r2 \<Rightarrow> Inr (None, r2))))"

definition add :: "('a::plus) registry \<Rightarrow> string \<Rightarrow> 'a \<Rightarrow> py_error + (bool option \<times> 'a registry)" where
  "add r k val =
     (if has r k = False then Inr (Some False, r)
      else (case setattr_flag r k (\<lambda>f. f\<lparr>count := count f + val\<rparr>) of Inl e \<Rightarrow> Inl e
            | Inr r1 \<Rightarrow> (case setattr_flag r1 k (\<lambda>f. f\<lparr>isset := True\<rparr>) of Inl e \<Rightarrow> Inl e
                        | Inr r2 \<Rightarrow> Inr (None, r2))))"

definition is_set :: "'a registry \<Rightarrow> string \<Rightarrow> py_error + bool" where
  "is_set r k =
     (if has r k = False then Inr False
      else (case dict_getitem r k of Inl e \<Rightarrow> Inl e | Inr f \<Rightarrow> Inr (isset f)))"

text \<open>The builtins \<^verbatim>\<open>any\<close> and \<^verbatim>\<open>all\<close> over a generator stop at the first
  deciding element.\<close>

fun any :: "'a registry \<Rightarrow> string list \<Rightarrow> py_error + bool" where
  "any r [] = Inr False"
| "any r (k # ks) =
     (case is_set r k of Inl e \<Rightarrow> Inl e | Inr b \<Rightarrow> if b then Inr True else any r ks)"

fun all :: "'a registry \<Rightarrow> string list \<Rightarrow> py_error + bool" where
  "all r [] = Inr True"
| "all r (k # ks) =
     (case is_set r k of Inl e \<Rightarrow> Inl e | Inr b \<Rightarrow> if b then all r ks else Inr False)"

text \<open>\<^verbatim>\<open>get\<close> and \<^verbatim>\<open>integral\<close> return Python's \<^verbatim>\<open>None\<close> (here \<open>None\<close>) on an
  unknown name and the float (here \<open>Some\<close>) otherwise.\<close>

definition get :: "'a registry \<Rightarrow> string \<Rightarrow> py_error + 'a option" where
  "get r k =
     (if has r k = False then Inr None
      else (case dict_getitem r k of Inl e \<Rightarrow> Inl e | Inr f \<Rightarrow> Inr (Some (count f))))"

definition integral :: "'a registry \<Rightarrow> string \<Rightarrow> py_error + 'a option" where
  "integral r k =
     (if has r k = False then Inr None
      else (case dict_getitem r k of Inl e \<Rightarrow> Inl e | Inr f \<Rightarrow> Inr (Some (accum f))))"

text \<open>
  \<^verbatim>\<open>when\<close>: the two names default to \<^verbatim>\<open>None\<close>, so they are optional here. No
  key of the registry is \<^verbatim>\<open>None\<close>, so \<^verbatim>\<open>set(None)\<close> takes the unknown-name
  branch: it returns \<^verbatim>\<open>False\<close> and changes nothing. The value \<^verbatim>\<open>set\<close> returns is
  dropped.
\<close>

definition set_named :: "('a::one) registry \<Rightarrow> string option \<Rightarrow> py_error + (bool option \<times> 'a registry)" where
  "set_named r name =
     (case name of None \<Rightarrow> Inr (Some False, r) | Some k \<Rightarrow> set_evs r k 1)"

definition define_missing :: "('a::zero) registry \<Rightarrow> string option \<Rightarrow> 'a registry" where
  "define_missing r name =
     (case name of None \<Rightarrow> r | Some k \<Rightarrow> if has r k = False then define r k else r)"

definition "when" ::
  "('a::{zero,one}) registry \<Rightarrow> bool \<Rightarrow> string option \<Rightarrow> string option \<Rightarrow> py_error + (bool \<times> 'a registry)" where
  "when r condition set_flag otherwise_set_flag =
     (let r1 = define_missing r set_flag;
          r2 = define_missing r1 otherwise_set_flag
      in (case (if condition = True then set_named r2 set_flag
                else set_named r2 otherwise_set_flag) of
            Inl e \<Rightarrow> Inl e
          | Inr (_, r3) \<Rightarrow> Inr (condition, r3)))"

subsection \<open>Per-record close-out, clearing, reset and the report\<close>

definition accumulate :: "('a::{zero,plus}) registry \<Rightarrow> 'a registry" where
  "accumulate r =
     map (\<lambda>(k, f). (k, f\<lparr>accum := accum f + count f, count := 0, isset := False\<rparr>)) r"

definition clear :: "('a::zero) registry \<Rightarrow> 'a registry" where
  "clear r = map (\<lambda>(k, f). (k, f\<lparr>count := 0, isset := False\<rparr>)) r"

definition reset :: "('a::zero) registry \<Rightarrow> 'a registry" where
  "reset r = map (\<lambda>(k, f). (k, f\<lparr>accum := 0, count := 0, isset := False\<rparr>)) r"

text \<open>
  What the program prints or asks of its collaborators, as a trace of events. The text
  formatting of the numbers is not modelled: an event carries the values that are
  formatted.
\<close>

datatype 'a event =
    ReportHeader nat
  | ReportLine 'a string
  | BlankLine
  | ProgressLine int int real real real real
  | NewLine
  | GetEntry int

definition "output" :: "'a registry \<Rightarrow> 'a event list" where
  "output r = ReportHeader (ndef r) # map (\<lambda>(k, f). ReportLine (accum f) (key f)) r @ [BlankLine]"

section \<open>The analysis module (analysis\_framework.py)\<close>

text \<open>
  The state a run works on: the process-wide flag registry, the attributes of the
  \<^verbatim>\<open>VANLModule\<close> instance that the loop reads and writes, the wall clock and the trace
  of what was printed or asked of the input tree. \<^verbatim>\<open>datetime.datetime.now()\<close> has
  microsecond resolution: the clock is a sequence of readings in microseconds, one taken
  per call, with no assumption that it advances.
\<close>

record 'a mstate =
  flags :: "'a registry"
  nentries :: int
  print_frequency :: int
  start_time :: int
  prev_time :: int
  clock :: "nat \<Rightarrow> int"
  ticks :: nat
  out :: "'a event list"

definition now :: "'a mstate \<Rightarrow> int \<times> 'a mstate" where
  "now s = (clock s (ticks s), s\<lparr>ticks := ticks s + 1\<rparr>)"

definition total_seconds :: "int \<Rightarrow> real" where
  "total_seconds us = real_of_int us / 1000000"

definition emit :: "'a event list \<Rightarrow> 'a mstate \<Rightarrow> 'a mstate" where
  "emit es s = s\<lparr>out := out s @ es\<rparr>"

text \<open>Python's \<^verbatim>\<open>//\<close> and \<^verbatim>\<open>%\<close> on floats with a positive constant divisor.\<close>

definition py_floordiv :: "real \<Rightarrow> real \<Rightarrow> real" where
  "py_floordiv x y = of_int \<lfloor>x / y\<rfloor>"

definition py_mod :: "real \<Rightarrow> real \<Rightarrow> real" where
  "py_mod x y = x - y * of_int \<lfloor>x / y\<rfloor>"

text \<open>
  The body of the \<^verbatim>\<open>if current_entry % print_frequency == 0\<close> branch of
  \<^verbatim>\<open>_print_progress\<close>. The two true divisions raise \<^verbatim>\<open>ZeroDivisionError\<close> on a
  zero divisor: \<^verbatim>\<open>current_entry/dt\<close> is evaluated before the test that protects the
  second division, and \<^verbatim>\<open>current_entry/self.nentries\<close> is evaluated for the printed
  percentage. The elapsed time and the estimate are floats, written here as reals; what
  the statements below depend on is exact in doubles: \<^verbatim>\<open>total_seconds()\<close> is \<open>0.0\<close> exactly
  when the two readings are equal, and at entry 0 every quotient is \<open>0.0\<close>.
\<close>

definition progress_line :: "'a mstate \<Rightarrow> int \<Rightarrow> py_error + 'a mstate" where
  "progress_line s current_entry =
     (case now s of (t, s1) \<Rightarrow>
        (let dt = total_seconds (t - start_time s1);
             rest_entries = nentries s1 - current_entry
         in if dt = 0 then Inl ZeroDivisionError
            else
              (let progress_in_dt = real_of_int current_entry / dt;
                   rest_time = (if progress_in_dt \<noteq> 0
                                then real_of_int rest_entries / progress_in_dt else 0);
                   h = py_floordiv rest_time 3600;
                   rest_time1 = py_mod rest_time 3600;
                   m = py_floordiv rest_time1 60;
                   rest_time2 = py_mod rest_time1 60;
                   sec = rest_time2;
                   s2 = s1\<lparr>prev_time := t\<rparr>
               in if nentries s2 = 0 then Inl ZeroDivisionError
                  else Inr (emit [ProgressLine current_entry (nentries s2)
                              (real_of_int current_entry / real_of_int (nentries s2) * 100)
                              h m sec] s2))))"

text \<open>\<^verbatim>\<open>_print_progress\<close>; the integer \<^verbatim>\<open>%\<close> raises on a zero frequency.\<close>

definition print_progress :: "'a mstate \<Rightarrow> int \<Rightarrow> py_error + (int \<times> 'a mstate)" where
  "print_progress s current_entry =
     (let s1 = (if current_entry = 0
                then (case now s of (t, s') \<Rightarrow> s'\<lparr>start_time := t\<rparr>) else s)
      in (case (if print_frequency s1 = 0 then Inl ZeroDivisionError
                else if current_entry mod print_frequency s1 = 0
                     then progress_line s1 current_entry
                     else Inr s1) of
            Inl e \<Rightarrow> Inl e
          | Inr s2 \<Rightarrow>
              Inr (current_entry,
                   if current_entry = nentries s2 - 1 then emit [NewLine] s2 else s2)))"

text \<open>
  The three user methods are overridden in subclasses, so a run takes them as
  parameters. They act on the whole state and may raise.
\<close>

record 'a hooks =
  user_before_loop :: "'a mstate \<Rightarrow> py_error + (AnalysisStatus \<times> 'a mstate)"
  user_event_routine :: "'a mstate \<Rightarrow> int \<Rightarrow> py_error + (AnalysisStatus \<times> 'a mstate)"
  user_after_loop :: "'a mstate \<Rightarrow> py_error + (AnalysisStatus \<times> 'a mstate)"

text \<open>The return helpers that the user methods are documented to end with.\<close>

definition evs_accumulate :: "('a::{zero,plus}) mstate \<Rightarrow> 'a mstate" where
  "evs_accumulate s = s\<lparr>flags := accumulate (flags s)\<rparr>"

definition evs_clear :: "('a::zero) mstate \<Rightarrow> 'a mstate" where
  "evs_clear s = s\<lparr>flags := clear (flags s)\<rparr>"

definition evs_output :: "'a mstate \<Rightarrow> 'a mstate" where
  "evs_output s = emit (output (flags s)) s"

definition ok_event :: "('a::{zero,plus}) mstate \<Rightarrow> py_error + (AnalysisStatus \<times> 'a mstate)" where
  "ok_event s = Inr (OKEvent, evs_accumulate s)"

definition skip_event :: "('a::{zero,plus}) mstate \<Rightarrow> py_error + (AnalysisStatus \<times> 'a mstate)" where
  "skip_event s = Inr (SkipEvent, evs_accumulate s)"

definition quit_loop :: "('a::{zero,plus}) mstate \<Rightarrow> py_error + (AnalysisStatus \<times> 'a mstate)" where
  "quit_loop s =
     (let s1 = evs_accumulate s
      in (case print_progress s1 (nentries s1 - 1) of Inl e \<Rightarrow> Inl e
          | Inr (_, s2) \<Rightarrow> Inr (QuitLoop, s2)))"

definition ok_before_loop :: "'a mstate \<Rightarrow> py_error + (AnalysisStatus \<times> 'a mstate)" where
  "ok_before_loop s = Inr (OKFunc, s)"

definition error_before_loop :: "'a mstate \<Rightarrow> py_error + (AnalysisStatus \<times> 'a mstate)" where
  "error_before_loop s = Inr (ErrFunc, s)"

definition ok_after_loop :: "'a mstate \<Rightarrow> py_error + (AnalysisStatus \<times> 'a mstate)" where
  "ok_after_loop s = Inr (OKFunc, s)"

definition error_after_loop :: "'a mstate \<Rightarrow> py_error + (AnalysisStatus \<times> 'a mstate)" where
  "error_after_loop s = Inr (ErrFunc, s)"

text \<open>\<^verbatim>\<open>_run_loop\<close>: progress, \<^verbatim>\<open>input_tree.GetEntry\<close>, then the user's routine.\<close>

definition run_loop :: "'a hooks \<Rightarrow> 'a mstate \<Rightarrow> int \<Rightarrow> py_error + (AnalysisStatus \<times> 'a mstate)" where
  "run_loop h s current_entry =
     (case print_progress s current_entry of Inl e \<Rightarrow> Inl e
      | Inr (ce, s1) \<Rightarrow> user_event_routine h (emit [GetEntry ce] s1) ce)"

text \<open>\<^verbatim>\<open>range(self.nentries)\<close>, empty for a count that is not positive.\<close>

definition entry_list :: "int \<Rightarrow> int list" where
  "entry_list n = map int [0..<nat n]"

text \<open>The \<^verbatim>\<open>for entry in entry_list\<close> loop with its \<^verbatim>\<open>break\<close>.\<close>

fun run_entries :: "('a::zero) hooks \<Rightarrow> 'a mstate \<Rightarrow> int list \<Rightarrow> py_error + 'a mstate" where
  "run_entries h s [] = Inr s"
| "run_entries h s (entry # rest) =
     (case run_loop h (evs_clear s) entry of Inl e \<Rightarrow> Inl e
      | Inr (st, s') \<Rightarrow> if st = QuitLoop then Inr s' else run_entries h s' rest)"

text \<open>
  \<^verbatim>\<open>run_analysis\<close> returns \<^verbatim>\<open>stt.ErrFunc\<close> from either early return and falls
  off the end (\<open>None\<close>) after the report.
\<close>

definition run_analysis :: "('a::zero) hooks \<Rightarrow> 'a mstate \<Rightarrow> py_error + (AnalysisStatus option \<times> 'a mstate)" where
  "run_analysis h s =
     (case user_before_loop h s of Inl e \<Rightarrow> Inl e
      | Inr (st1, s1) \<Rightarrow>
          if st1 \<noteq> OKFunc then Inr (Some ErrFunc, s1)
          else (case run_entries h s1 (entry_list (nentries s1)) of Inl e \<Rightarrow> Inl e
                | Inr s2 \<Rightarrow>
                    (case user_after_loop h s2 of Inl e \<Rightarrow> Inl e
                     | Inr (st2, s3) \<Rightarrow>
                         if st2 \<noteq> OKFunc then Inr (Some ErrFunc, s3)
                         else Inr (None, evs_output s3))))"

subsection \<open>User modules and start states used as concrete inputs\<close>

text \<open>A module whose event routine applies some flag logic to the registry and then
  returns through \<^verbatim>\<open>quit_loop\<close> at one index and through \<^verbatim>\<open>ok_event\<close> elsewhere.\<close>

definition abort_at ::
  "int \<Rightarrow> (int \<Rightarrow> ('a::{zero,plus}) registry \<Rightarrow> py_error + 'a registry) \<Rightarrow> 'a hooks" where
  "abort_at stop body =
     \<lparr>user_before_loop = ok_before_loop,
      user_event_routine = (\<lambda>s i.
         case body i (flags s) of Inl e \<Rightarrow> Inl e
         | Inr r \<Rightarrow> if i = stop then quit_loop (s\<lparr>flags := r\<rparr>) else ok_event (s\<lparr>flags := r\<rparr>)),
      user_after_loop = ok_after_loop\<rparr>"

text \<open>Flag logic that classifies every record under the one flag \<^verbatim>\<open>seen\<close>.\<close>

definition mark_seen :: "int \<Rightarrow> ('a::{zero,one}) registry \<Rightarrow> py_error + 'a registry" where
  "mark_seen i r =
     (case when r True (Some ''seen'') None of Inl e \<Rightarrow> Inl e | Inr (_, r') \<Rightarrow> Inr r')"

text \<open>A module whose event routine sets a flag and returns the status itself, not
  through a helper.\<close>

definition raw_status_module :: "('a::one) hooks" where
  "raw_status_module =
     \<lparr>user_before_loop = ok_before_loop,
      user_event_routine = (\<lambda>s i.
         case set_evs (flags s) ''a'' 1 of Inl e \<Rightarrow> Inl e
         | Inr (_, r) \<Rightarrow> Inr (OKEvent, s\<lparr>flags := r\<rparr>)),
      user_after_loop = ok_after_loop\<rparr>"

text \<open>Modules whose setup or teardown method reports failure.\<close>

definition failing_setup_module :: "('a::{zero,plus}) hooks" where
  "failing_setup_module =
     \<lparr>user_before_loop = error_before_loop,
      user_event_routine = (\<lambda>s i. ok_event s),
      user_after_loop = ok_after_loop\<rparr>"

definition failing_teardown_module :: "('a::{zero,plus}) hooks" where
  "failing_teardown_module =
     \<lparr>user_before_loop = ok_before_loop,
      user_event_routine = (\<lambda>s i. ok_event s),
      user_after_loop = error_after_loop\<rparr>"

text \<open>Start states: a clock that advances by one microsecond per reading, and one
  that stands still. As concrete inputs they hold flag values of type \<open>real\<close>.\<close>

definition start_state :: "real registry \<Rightarrow> int \<Rightarrow> int \<Rightarrow> real mstate" where
  "start_state r n freq =
     \<lparr>flags = r, nentries = n, print_frequency = freq, start_time = 0, prev_time = 0,
      clock = int, ticks = 0, out = []\<rparr>"

definition frozen_state :: "real registry \<Rightarrow> int \<Rightarrow> int \<Rightarrow> real mstate" where
  "frozen_state r n freq =
     \<lparr>flags = r, nentries = n, print_frequency = freq, start_time = 0, prev_time = 0,
      clock = (\<lambda>_. 0), ticks = 0, out = []\<rparr>"

text \<open>The check that every flag is in the state \<^verbatim>\<open>clear\<close> leaves, and an event
  routine that makes it on entry.\<close>

definition cleared :: "('a::zero) registry \<Rightarrow> bool" where
  "cleared r = list_all (\<lambda>(k, f). count f = 0 \<and> isset f = False) r"

definition asserting_cleared :: "('a::zero) hooks \<Rightarrow> 'a hooks" where
  "asserting_cleared h =
     h\<lparr>user_event_routine := (\<lambda>s i.
         if cleared (flags s) then user_event_routine h s i else Inl AssertionError)\<rparr>"

section \<open>Auxiliary facts\<close>

subsection \<open>The registry as a finite map\<close>

lemma has_map_of: "has r k = (map_of r k \<noteq> None)"
  by (simp add: has_def map_of_eq_None_iff)

lemma has_update: "has (AList.update k v r) k' = (k' = k \<or> has r k')"
  by (auto simp: has_map_of update_conv')

lemma dict_getitem_Some: "map_of r k = Some f \<Longrightarrow> dict_getitem r k = Inr f"
  by (simp add: dict_getitem_def)

lemma setattr_flag_Some:
  "map_of r k = Some f \<Longrightarrow> setattr_flag r k upd = Inr (AList.update k (upd f) r)"
  by (simp add: setattr_flag_def dict_getitem_Some)

lemma get_map_of: "get r k = Inr (map_option count (map_of r k))"
  by (cases "map_of r k") (simp_all add: get_def has_map_of dict_getitem_def)

lemma integral_map_of: "integral r k = Inr (map_option accum (map_of r k))"
  by (cases "map_of r k") (simp_all add: integral_def has_map_of dict_getitem_def)

lemma is_set_map_of:
  "is_set r k = Inr (case map_of r k of None \<Rightarrow> False | Some f \<Rightarrow> isset f)"
  by (cases "map_of r k") (simp_all add: is_set_def has_map_of dict_getitem_def)

lemma set_evs_defined:
  "map_of r k = Some f \<Longrightarrow>
     set_evs r k v = Inr (None, AList.update k (f\<lparr>count := v, isset := True\<rparr>) r)"
  by (simp add: set_evs_def has_map_of setattr_flag_Some update_conv')

lemma add_defined:
  "map_of r k = Some f \<Longrightarrow>
     add r k v = Inr (None, AList.update k (f\<lparr>count := count f + v, isset := True\<rparr>) r)"
  by (simp add: add_def has_map_of setattr_flag_Some update_conv')

lemma set_evs_undefined: "\<not> has r k \<Longrightarrow> set_evs r k v = Inr (Some False, r)"
  by (simp add: set_evs_def)

lemma add_undefined: "\<not> has r k \<Longrightarrow> add r k v = Inr (Some False, r)"
  by (simp add: add_def)

lemma map_of_accumulate:
  "map_of (accumulate r) k =
     map_option (\<lambda>f. f\<lparr>accum := accum f + count f, count := 0, isset := False\<rparr>) (map_of r k)"
  by (simp add: accumulate_def map_of_map)

lemma map_of_clear:
  "map_of (clear r) k = map_option (\<lambda>f. f\<lparr>count := 0, isset := False\<rparr>) (map_of r k)"
  by (simp add: clear_def map_of_map)

lemma any_undefined: "list_all (\<lambda>k. \<not> has r k) ks \<Longrightarrow> any r ks = Inr False"
  by (induction ks) (simp_all add: is_set_def)

lemma all_undefined: "ks \<noteq> [] \<Longrightarrow> list_all (\<lambda>k. \<not> has r k) ks \<Longrightarrow> all r ks = Inr False"
  by (cases ks) (simp_all add: is_set_def)

lemma newkey_from_spec:
  "\<exists>j\<ge>iter. newkey_from r k iter = candidate k j \<and> \<not> has r (candidate k j)
       \<and> (\<forall>i. iter \<le> i \<and> i < j \<longrightarrow> has r (candidate k i))"
proof (induction r k iter rule: newkey_from.induct)
  case (1 r k iter)
  show ?case
  proof (cases "has r (candidate k iter)")
    case False
    then have "newkey_from r k iter = candidate k iter"
      by (simp add: newkey_from.simps [of r k iter])
    with False show ?thesis by (intro exI [of _ iter]) auto
  next
    case True
    then have eq: "newkey_from r k iter = newkey_from r k (iter + 1)"
      by (simp add: newkey_from.simps [of r k iter])
    from 1 True obtain j where j: "iter + 1 \<le> j" "newkey_from r k (iter + 1) = candidate k j"
      "\<not> has r (candidate k j)" "\<forall>i. iter + 1 \<le> i \<and> i < j \<longrightarrow> has r (candidate k i)"
      by auto
    have "\<forall>i. iter \<le> i \<and> i < j \<longrightarrow> has r (candidate k i)"
    proof (intro allI impI)
      fix i assume "iter \<le> i \<and> i < j"
      then show "has r (candidate k i)"
        using True j(4) by (cases "i = iter") auto
    qed
    with j eq show ?thesis by (intro exI [of _ j]) auto
  qed
qed

lemma newkey_least:
  "newkey r k = candidate k (LEAST j. 2 \<le> j \<and> \<not> has r (candidate k j))"
proof -
  obtain j where j: "2 \<le> j" "newkey_from r k 2 = candidate k j" "\<not> has r (candidate k j)"
    "\<forall>i. 2 \<le> i \<and> i < j \<longrightarrow> has r (candidate k i)"
    using newkey_from_spec [of 2 r k] by auto
  have "(LEAST j. 2 \<le> j \<and> \<not> has r (candidate k j)) = j"
  proof (rule Least_equality)
    show "2 \<le> j \<and> \<not> has r (candidate k j)" using j by simp
    fix y assume "2 \<le> y \<and> \<not> has r (candidate k y)"
    then show "j \<le> y" using j(4) by (meson not_le)
  qed
  then show ?thesis using j(2) by (simp add: newkey_def)
qed

lemma define_fresh:
  "\<not> has r k \<Longrightarrow>
     define r k = r @ [(k, \<lparr>key = k, count = 0, isset = False, accum = 0\<rparr>)]"
proof -
  assume a: "\<not> has r k"
  have "AList.update k v r = r @ [(k, v)]" for v
    using a by (induction r) (auto simp: has_def)
  with a show ?thesis by (simp add: define_def EventFlags_init_def)
qed


lemma has_accumulate: "has (accumulate r) k = has r k"
  by (simp add: has_map_of map_of_accumulate)

lemma set_evs_has:
  "has r k \<Longrightarrow>
     set_evs r k v = Inr (None, AList.update k ((the (map_of r k))\<lparr>count := v, isset := True\<rparr>) r)"
  by (auto simp: has_map_of set_evs_defined)

lemma add_has:
  "has r k \<Longrightarrow>
     add r k v = Inr (None, AList.update k
        ((the (map_of r k))\<lparr>count := count (the (map_of r k)) + v, isset := True\<rparr>) r)"
  by (auto simp: has_map_of add_defined)

lemma get_Some_has: "get r k = Inr (Some c) \<Longrightarrow> has r k"
  by (auto simp: get_map_of has_map_of)

lemma get_Some_count: "get r k = Inr (Some c) \<Longrightarrow> count (the (map_of r k)) = c"
  by (auto simp: get_map_of)

lemma define_registered: "has r k \<Longrightarrow> define r k = r"
  by (simp add: define_def)

lemma has_define: "has (define r k) k' = (k' = k \<or> has r k')"
proof (cases "has r k")
  case True
  then show ?thesis by (auto simp: define_registered)
next
  case False
  then show ?thesis by (auto simp: define_fresh has_def)
qed

lemma map_of_define:
  "map_of (define r k) k' =
     (if has r k then map_of r k'
      else if k' = k then Some \<lparr>key = k, count = 0, isset = False, accum = 0\<rparr>
      else map_of r k')"
proof (cases "has r k")
  case True
  then show ?thesis by (simp add: define_registered)
next
  case False
  then show ?thesis
    by (auto simp: define_fresh map_add_def has_map_of split: option.splits)
qed

subsection \<open>One turn of the loop\<close>

lemma print_progress_flags:
  "print_progress s e = Inr (ce, s') \<Longrightarrow> flags s' = flags s \<and> ce = e"
  by (auto simp: print_progress_def progress_line_def now_def emit_def Let_def
           split: if_splits sum.splits prod.splits)

lemma cleared_clear: "cleared (clear r)"
  by (induction r) (auto simp: cleared_def clear_def)

lemma run_loop_asserting:
  "run_loop (asserting_cleared h) (evs_clear s) e = run_loop h (evs_clear s) e"
proof (cases "print_progress (evs_clear s) e")
  case (Inl a)
  then show ?thesis by (simp add: run_loop_def)
next
  case (Inr p)
  obtain ce s1 where p: "p = (ce, s1)" by (cases p)
  with Inr have "flags s1 = flags (evs_clear s)"
    using print_progress_flags by blast
  then have "cleared (flags (emit [GetEntry ce] s1))"
    by (simp add: emit_def evs_clear_def cleared_clear)
  with Inr p show ?thesis
    by (simp add: run_loop_def asserting_cleared_def)
qed

lemma run_entries_asserting:
  "run_entries (asserting_cleared h) s es = run_entries h s es"
  by (induction es arbitrary: s) (simp_all add: run_loop_asserting split: sum.splits)

lemma entry_list_10: "entry_list 10 = [0, 1, 2, 3, 4, 5, 6, 7, 8, 9]"
  by (simp add: entry_list_def upt_rec)

lemma entry_list_2: "entry_list 2 = [0, 1]"
  by (simp add: entry_list_def upt_rec)

lemma entry_list_0: "entry_list 0 = []"
  by (simp add: entry_list_def)

lemma first_entry:
  assumes "nentries s = 10" and "print_frequency s = 100"
      and "clock s (Suc (ticks s)) \<noteq> clock s (ticks s)"
  shows "print_progress (evs_clear s) 0 =
     Inr (0, s\<lparr>flags := clear (flags s), start_time := clock s (ticks s),
               prev_time := clock s (Suc (ticks s)), ticks := ticks s + 2,
               out := out s @ [ProgressLine 0 10 0 0 0 0]\<rparr>)"
  using assms
  by (simp add: print_progress_def progress_line_def now_def total_seconds_def Let_def
        emit_def evs_clear_def py_floordiv_def py_mod_def)

lemma silent_entry:
  assumes "nentries s = 10" and "print_frequency s = 100" and "e = 1 \<or> e = 2"
  shows "print_progress (evs_clear s) e = Inr (e, s\<lparr>flags := clear (flags s)\<rparr>)"
  using assms by (auto simp: print_progress_def Let_def evs_clear_def)

lemma last_signal:
  assumes "nentries s = 10" and "print_frequency s = 100"
  shows "print_progress s 9 = Inr (9, s\<lparr>out := out s @ [NewLine]\<rparr>)"
  using assms by (simp add: print_progress_def Let_def emit_def)

lemma entry_0_same_reading:
  assumes "clock s (Suc (ticks s)) = clock s (ticks s)"
  shows "print_progress s 0 = Inl ZeroDivisionError"
  using assms
  by (simp add: print_progress_def progress_line_def now_def total_seconds_def Let_def)

lemma mark_seen_eval:
  "mark_seen i [] = Inr [(''seen'', \<lparr>key = ''seen'', count = 1, isset = True, accum = 0\<rparr>)]"
  "mark_seen i [(''seen'', \<lparr>key = ''seen'', count = 0, isset = False, accum = a\<rparr>)]
     = Inr [(''seen'', \<lparr>key = ''seen'', count = 1, isset = True, accum = a\<rparr>)]"
  by (simp_all add: mark_seen_def when_def define_missing_def define_def EventFlags_init_def
        has_def set_named_def set_evs_def setattr_flag_def dict_getitem_def)


section \<open>Claims about the flag registry\<close>

subsection \<open>Accumulation\<close>

text \<open>
  A flag that holds the value 1 and the total 0 has the total 1, not 2, after two
  consecutive calls of \<^verbatim>\<open>accumulate\<close>: the first call resets the current value, so
  the second adds 0. The sums \<open>0 + 1\<close> and \<open>1 + 0\<close> are exact in doubles.
\<close>

theorem accumulate_twice_counterexample:
  "get [(''a'', \<lparr>key = ''a'', count = (1::real), isset = True, accum = 0\<rparr>)] ''a'' = Inr (Some 1)
   \<and> integral [(''a'', \<lparr>key = ''a'', count = (1::real), isset = True, accum = 0\<rparr>)] ''a'' = Inr (Some 0)
   \<and> integral (accumulate (accumulate
        [(''a'', \<lparr>key = ''a'', count = (1::real), isset = True, accum = 0\<rparr>)])) ''a'' = Inr (Some 1)
   \<and> integral (accumulate (accumulate
        [(''a'', \<lparr>key = ''a'', count = (1::real), isset = True, accum = 0\<rparr>)])) ''a''
      \<noteq> Inr (Some (0 + 1 + 1))"
  by (simp add: get_map_of integral_map_of accumulate_def)

text \<open>
  Claim C2, as amended. For every registry and every flag with current value \<open>c\<close> and
  total \<open>a\<close>, \<^verbatim>\<open>accumulate\<close> leaves as the total the float \<open>a + c\<close> that \<^verbatim>\<open>+=\<close>
  computes from the two, the current value 0 and the flag unset. The total is the rounded
  sum, not the exact one: the statement assumes no law of \<open>+\<close>, and says nothing of how
  far \<open>a + c\<close> is from \<open>a\<close>. A second call in a row adds the 0 that the first call
  left as the current value, not \<open>c\<close> again: the total is \<open>(a + c) + 0\<close>.
\<close>

theorem accumulate_adds_current_once:
  assumes "get r k = Inr (Some c)" and "integral r k = Inr (Some a)"
  shows "integral (accumulate r) k = Inr (Some (a + c))
       \<and> get (accumulate r) k = Inr (Some 0)
       \<and> is_set (accumulate r) k = Inr False
       \<and> integral (accumulate (accumulate r)) k = Inr (Some ((a + c) + 0))"
  using assms
  by (auto simp: get_map_of integral_map_of is_set_map_of map_of_accumulate)

theorem accumulate_adds_current_once_witness:
  "get [(''a'', \<lparr>key = ''a'', count = (1::real), isset = True, accum = 0\<rparr>)] ''a'' = Inr (Some 1)
   \<and> integral [(''a'', \<lparr>key = ''a'', count = (1::real), isset = True, accum = 0\<rparr>)] ''a'' = Inr (Some 0)
   \<and> integral (accumulate [(''a'', \<lparr>key = ''a'', count = (1::real), isset = True, accum = 0\<rparr>)]) ''a''
       = Inr (Some 1)
   \<and> integral (accumulate (accumulate
        [(''a'', \<lparr>key = ''a'', count = (1::real), isset = True, accum = 0\<rparr>)])) ''a'' = Inr (Some 1)"
proof -
  have g: "get [(''a'', \<lparr>key = ''a'', count = (1::real), isset = True, accum = 0\<rparr>)] ''a''
      = Inr (Some 1)"
    by (simp add: get_map_of)
  have i: "integral [(''a'', \<lparr>key = ''a'', count = (1::real), isset = True, accum = 0\<rparr>)] ''a''
      = Inr (Some 0)"
    by (simp add: integral_map_of)
  show ?thesis
    using g i accumulate_adds_current_once [OF g i] by simp
qed

subsection \<open>Name disambiguation\<close>

text \<open>
  On a registry without \<^verbatim>\<open>x\<close> the constructor yields the key \<^verbatim>\<open>x\<close> and registers
  nothing, so a second construction meets the same empty registry and yields \<^verbatim>\<open>x\<close>
  again; two calls of \<^verbatim>\<open>define\<close> register \<^verbatim>\<open>x\<close> once and never \<^verbatim>\<open>x-2\<close>.
\<close>

theorem define_unique_counterexample:
  "EventFlags_init [] ''x'' = (\<lparr>key = ''x'', count = (0::real), isset = False, accum = 0\<rparr>, [])
   \<and> key (fst (EventFlags_init (snd (EventFlags_init [] ''x'')) ''x'')) = ''x''
   \<and> key (fst (EventFlags_init (snd (EventFlags_init [] ''x'')) ''x'')) \<noteq> ''x-2''
   \<and> has (snd (EventFlags_init (snd (EventFlags_init [] ''x'')) ''x'')) ''x'' = False
   \<and> define (define [] ''x'') ''x''
       = [(''x'', \<lparr>key = ''x'', count = (0::real), isset = False, accum = 0\<rparr>)]
   \<and> has (define (define [] ''x'') ''x'') ''x-2'' = False"
  by (simp add: EventFlags_init_def define_def has_def)

text \<open>
  Claim C4, as amended. Given a registered name, the constructor chooses as the key of the
  new flag the name followed by \<^verbatim>\<open>-k\<close> for the smallest \<open>k \<ge> 2\<close> whose candidate is
  unused, and leaves the registry as it was; \<^verbatim>\<open>define\<close> on a registered name changes
  nothing. Given an unused name, the constructor keeps the name, \<^verbatim>\<open>define\<close> appends
  one fresh flag under it, and a second \<^verbatim>\<open>define\<close> of the same name changes nothing.
\<close>

theorem constructor_suffix_define_idempotent:
  "(has r name \<longrightarrow>
      (\<exists>j. 2 \<le> j
         \<and> EventFlags_init r name
             = (\<lparr>key = candidate name j, count = 0, isset = False, accum = 0\<rparr>, r)
         \<and> \<not> has r (candidate name j)
         \<and> (\<forall>i. 2 \<le> i \<and> i < j \<longrightarrow> has r (candidate name i))
         \<and> define r name = r))
   \<and> (\<not> has r name \<longrightarrow>
        EventFlags_init r name = (\<lparr>key = name, count = 0, isset = False, accum = 0\<rparr>, r)
        \<and> define r name = r @ [(name, \<lparr>key = name, count = 0, isset = False, accum = 0\<rparr>)]
        \<and> define (define r name) name
            = r @ [(name, \<lparr>key = name, count = 0, isset = False, accum = 0\<rparr>)])"
proof (intro conjI impI)
  assume h: "has r name"
  obtain j where j: "2 \<le> j" "newkey_from r name 2 = candidate name j"
    "\<not> has r (candidate name j)" "\<forall>i. 2 \<le> i \<and> i < j \<longrightarrow> has r (candidate name i)"
    using newkey_from_spec [of 2 r name] by auto
  have "EventFlags_init r name
      = (\<lparr>key = candidate name j, count = 0, isset = False, accum = 0\<rparr>, r)"
    using h j(2) by (simp add: EventFlags_init_def newkey_def)
  with j h show "\<exists>j. 2 \<le> j
         \<and> EventFlags_init r name
             = (\<lparr>key = candidate name j, count = 0, isset = False, accum = 0\<rparr>, r)
         \<and> \<not> has r (candidate name j)
         \<and> (\<forall>i. 2 \<le> i \<and> i < j \<longrightarrow> has r (candidate name i))
         \<and> define r name = r"
    by (intro exI [of _ j]) (simp add: define_registered)
next
  assume n: "\<not> has r name"
  then show "EventFlags_init r name
      = (\<lparr>key = name, count = 0, isset = False, accum = 0\<rparr>, r)"
    by (simp add: EventFlags_init_def)
  show d: "define r name = r @ [(name, \<lparr>key = name, count = 0, isset = False, accum = 0\<rparr>)]"
    using n by (rule define_fresh)
  have "has (define r name) name" by (simp add: has_define)
  then show "define (define r name) name
      = r @ [(name, \<lparr>key = name, count = 0, isset = False, accum = 0\<rparr>)]"
    using d by (simp add: define_registered)
qed

theorem constructor_suffix_define_idempotent_witness:
  "has [(''x'', \<lparr>key = ''x'', count = (0::real), isset = False, accum = 0\<rparr>)] ''x''
   \<and> (\<exists>j. 2 \<le> j
        \<and> EventFlags_init
              [(''x'', \<lparr>key = ''x'', count = (0::real), isset = False, accum = 0\<rparr>)] ''x''
            = (\<lparr>key = candidate ''x'' j, count = (0::real), isset = False, accum = 0\<rparr>,
               [(''x'', \<lparr>key = ''x'', count = (0::real), isset = False, accum = 0\<rparr>)]))
   \<and> \<not> has ([] :: real registry) ''x''
   \<and> define (define [] ''x'') ''x''
       = [(''x'', \<lparr>key = ''x'', count = (0::real), isset = False, accum = 0\<rparr>)]"
proof -
  have h: "has [(''x'', \<lparr>key = ''x'', count = (0::real), isset = False, accum = 0\<rparr>)] ''x''"
    by (simp add: has_def)
  have n: "\<not> has ([] :: real registry) ''x''"
    by (simp add: has_def)
  show ?thesis
    using h n
      constructor_suffix_define_idempotent
        [of "[(''x'', \<lparr>key = ''x'', count = (0::real), isset = False, accum = 0\<rparr>)]" "''x''"]
      constructor_suffix_define_idempotent [of "[] :: real registry" "''x''"]
    by auto
qed

subsection \<open>The combinator \<^verbatim>\<open>when\<close>\<close>

text \<open>
  With \<^verbatim>\<open>B\<close> already holding the value 5 in this record, \<^verbatim>\<open>when(True, 'A', 'B')\<close>
  leaves \<^verbatim>\<open>B\<close> at 5, not at 0.
\<close>

theorem when_other_flag_counterexample:
  "when [(''B'', \<lparr>key = ''B'', count = (5::real), isset = True, accum = 0\<rparr>)] True (Some ''A'') (Some ''B'')
     = Inr (True, [(''B'', \<lparr>key = ''B'', count = (5::real), isset = True, accum = 0\<rparr>),
                   (''A'', \<lparr>key = ''A'', count = (1::real), isset = True, accum = 0\<rparr>)])
   \<and> get [(''B'', \<lparr>key = ''B'', count = (5::real), isset = True, accum = 0\<rparr>),
          (''A'', \<lparr>key = ''A'', count = (1::real), isset = True, accum = 0\<rparr>)] ''B'' = Inr (Some 5)
   \<and> get [(''B'', \<lparr>key = ''B'', count = (5::real), isset = True, accum = 0\<rparr>),
          (''A'', \<lparr>key = ''A'', count = (1::real), isset = True, accum = 0\<rparr>)] ''B'' \<noteq> Inr (Some 0)"
  by (simp add: when_def define_missing_def set_named_def has_def define_def EventFlags_init_def
        set_evs_def setattr_flag_def dict_getitem_def get_map_of)

text \<open>
  Claim C6, as amended. For every condition and every two different flag names,
  \<^verbatim>\<open>when\<close> returns the condition, leaves both names defined, sets the flag that matches
  the condition to 1.0 and marks it set, and does not touch the other flag: its current
  value and set mark are what they were (0 and unset when this call defined it).
\<close>

theorem when_sets_matching_flag:
  assumes "a \<noteq> b"
  shows "\<exists>r'. when r c (Some a) (Some b) = Inr (c, r')
           \<and> has r' a \<and> has r' b
           \<and> get r' (if c then a else b) = Inr (Some 1)
           \<and> is_set r' (if c then a else b) = Inr True
           \<and> get r' (if c then b else a)
               = (if has r (if c then b else a) then get r (if c then b else a) else Inr (Some 0))
           \<and> is_set r' (if c then b else a) = is_set r (if c then b else a)"
proof -
  define r2 where "r2 = define_missing (define_missing r (Some a)) (Some b)"
  have m2: "map_of r2 k =
      (if has r k then map_of r k
       else if k = a \<or> k = b then Some \<lparr>key = k, count = 0, isset = False, accum = 0\<rparr>
       else None)" for k
    by (auto simp: r2_def define_missing_def map_of_define has_define has_map_of)
  have h2: "has r2 a" "has r2 b"
    by (simp_all add: r2_def define_missing_def has_define)
  show ?thesis
  proof (cases c)
    case True
    have "when r c (Some a) (Some b)
        = Inr (c, AList.update a ((the (map_of r2 a))\<lparr>count := 1, isset := True\<rparr>) r2)"
      using True h2 by (simp add: when_def Let_def set_named_def set_evs_has r2_def [symmetric])
    then show ?thesis
      using True assms h2
      by (auto simp: has_update get_map_of is_set_map_of update_conv' m2 has_map_of)
  next
    case False
    have "when r c (Some a) (Some b)
        = Inr (c, AList.update b ((the (map_of r2 b))\<lparr>count := 1, isset := True\<rparr>) r2)"
      using False h2 by (simp add: when_def Let_def set_named_def set_evs_has r2_def [symmetric])
    then show ?thesis
      using False assms h2
      by (auto simp: has_update get_map_of is_set_map_of update_conv' m2 has_map_of)
  qed
qed

theorem when_sets_matching_flag_witness:
  "''A'' \<noteq> ''B''
   \<and> (\<exists>r'. when [] True (Some ''A'') (Some ''B'') = Inr (True, r')
         \<and> has r' ''A'' \<and> has r' ''B''
         \<and> get r' ''A'' = Inr (Some 1) \<and> is_set r' ''A'' = Inr True
         \<and> get r' ''B'' = Inr (Some 0))"
proof -
  have d: "''A'' \<noteq> ''B''" by simp
  have u: "\<not> has [] ''B''" by (simp add: has_def)
  show ?thesis
    using d u when_sets_matching_flag [OF d, of "[]" True] by auto
qed

subsection \<open>Writing a flag twice\<close>

text \<open>
  On a flag that already holds 5 in this record, \<^verbatim>\<open>add(.., 1)\<close> followed by
  \<^verbatim>\<open>add(.., 2)\<close> leaves 8, not \<open>1 + 2\<close>. The sums \<open>5 + 1\<close>, \<open>6 + 2\<close> and
  \<open>1 + 2\<close> are exact in doubles.
\<close>

theorem add_twice_counterexample:
  "has [(''a'', \<lparr>key = ''a'', count = (5::real), isset = True, accum = 0\<rparr>)] ''a''
   \<and> add [(''a'', \<lparr>key = ''a'', count = (5::real), isset = True, accum = 0\<rparr>)] ''a'' 1
       = Inr (None, [(''a'', \<lparr>key = ''a'', count = (6::real), isset = True, accum = 0\<rparr>)])
   \<and> add [(''a'', \<lparr>key = ''a'', count = (6::real), isset = True, accum = 0\<rparr>)] ''a'' 2
       = Inr (None, [(''a'', \<lparr>key = ''a'', count = (8::real), isset = True, accum = 0\<rparr>)])
   \<and> get [(''a'', \<lparr>key = ''a'', count = (8::real), isset = True, accum = 0\<rparr>)] ''a'' = Inr (Some 8)
   \<and> get [(''a'', \<lparr>key = ''a'', count = (8::real), isset = True, accum = 0\<rparr>)] ''a'' \<noteq> Inr (Some (1 + 2))"
  by (simp add: has_def add_has get_map_of)

text \<open>
  Claim C7, as amended. For a defined flag whose current value is \<open>c\<close>: \<^verbatim>\<open>set\<close> with
  \<open>v\<close> and then with \<open>w\<close> leaves the current value \<open>w\<close>; \<^verbatim>\<open>add\<close> with \<open>v\<close> and
  then with \<open>w\<close> leaves the float \<open>(c + v) + w\<close>, the result of the two additions of
  \<^verbatim>\<open>+=\<close> in that order, each with its own rounding; both mark the flag set. No law of
  \<open>+\<close> is assumed, so the statement does not equate \<open>(c + v) + w\<close> with the exact sum,
  nor with \<open>c + (v + w)\<close>. For an undefined name both return \<^verbatim>\<open>False\<close> and leave the
  registry unchanged.
\<close>

theorem set_last_write_add_sums:
  assumes "get r k = Inr (Some c)" and "\<not> has r k'"
  shows "(\<exists>r1 r2. set_evs r k v = Inr (None, r1) \<and> set_evs r1 k w = Inr (None, r2)
            \<and> get r2 k = Inr (Some w) \<and> is_set r2 k = Inr True)
       \<and> (\<exists>r1 r2. add r k v = Inr (None, r1) \<and> add r1 k w = Inr (None, r2)
            \<and> get r2 k = Inr (Some ((c + v) + w)) \<and> is_set r2 k = Inr True)
       \<and> set_evs r k' v = Inr (Some False, r) \<and> add r k' v = Inr (Some False, r)"
proof -
  have h: "has r k" using assms(1) by (rule get_Some_has)
  have c: "count (the (map_of r k)) = c" using assms(1) by (rule get_Some_count)
  have "\<exists>r1 r2. set_evs r k v = Inr (None, r1) \<and> set_evs r1 k w = Inr (None, r2)
            \<and> get r2 k = Inr (Some w) \<and> is_set r2 k = Inr True"
    using h by (simp add: set_evs_has has_update update_conv' get_map_of is_set_map_of)
  moreover have "\<exists>r1 r2. add r k v = Inr (None, r1) \<and> add r1 k w = Inr (None, r2)
            \<and> get r2 k = Inr (Some ((c + v) + w)) \<and> is_set r2 k = Inr True"
    using h c by (simp add: add_has has_update update_conv' get_map_of is_set_map_of)
  ultimately show ?thesis
    using assms(2) by (simp add: set_evs_undefined add_undefined)
qed

theorem set_last_write_add_sums_witness:
  "get [(''a'', \<lparr>key = ''a'', count = (0::real), isset = False, accum = 0\<rparr>)] ''a'' = Inr (Some 0)
   \<and> \<not> has [(''a'', \<lparr>key = ''a'', count = (0::real), isset = False, accum = 0\<rparr>)] ''b''
   \<and> (\<exists>r1 r2. set_evs [(''a'', \<lparr>key = ''a'', count = (0::real), isset = False, accum = 0\<rparr>)] ''a'' 3
                  = Inr (None, r1)
         \<and> set_evs r1 ''a'' 4 = Inr (None, r2) \<and> get r2 ''a'' = Inr (Some 4))
   \<and> (\<exists>r1 r2. add [(''a'', \<lparr>key = ''a'', count = (0::real), isset = False, accum = 0\<rparr>)] ''a'' 3
                  = Inr (None, r1)
         \<and> add r1 ''a'' 4 = Inr (None, r2) \<and> get r2 ''a'' = Inr (Some 7))
   \<and> add [(''a'', \<lparr>key = ''a'', count = (0::real), isset = False, accum = 0\<rparr>)] ''b'' 3
       = Inr (Some False, [(''a'', \<lparr>key = ''a'', count = (0::real), isset = False, accum = 0\<rparr>)])"
proof -
  have g: "get [(''a'', \<lparr>key = ''a'', count = (0::real), isset = False, accum = 0\<rparr>)] ''a''
      = Inr (Some 0)"
    by (simp add: get_map_of)
  have u: "\<not> has [(''a'', \<lparr>key = ''a'', count = (0::real), isset = False, accum = 0\<rparr>)] ''b''"
    by (simp add: has_def)
  show ?thesis
    using g u set_last_write_add_sums [OF g u, of 3 4] by auto
qed

subsection \<open>Queries on unknown names\<close>

text \<open>
  Claim C9. For every name that is not in the registry, no query raises: \<^verbatim>\<open>has\<close> and
  \<^verbatim>\<open>is_set\<close> answer false, \<^verbatim>\<open>get\<close> and \<^verbatim>\<open>integral\<close> return \<^verbatim>\<open>None\<close>, which is
  not the number zero, and \<^verbatim>\<open>any\<close> and \<^verbatim>\<open>all\<close> over that name answer false.
\<close>

theorem undefined_name_queries_absent:
  assumes "\<not> has r k"
  shows "has r k = False \<and> is_set r k = Inr False
       \<and> get r k = Inr None \<and> integral r k = Inr None
       \<and> get r k \<noteq> Inr (Some 0) \<and> integral r k \<noteq> Inr (Some 0)
       \<and> any r [k] = Inr False \<and> all r [k] = Inr False"
  using assms by (simp add: is_set_def get_def integral_def)

theorem undefined_name_queries_absent_witness:
  "\<not> has [(''a'', \<lparr>key = ''a'', count = (0::real), isset = False, accum = 0\<rparr>)] ''b''
   \<and> is_set [(''a'', \<lparr>key = ''a'', count = (0::real), isset = False, accum = 0\<rparr>)] ''b'' = Inr False
   \<and> get [(''a'', \<lparr>key = ''a'', count = (0::real), isset = False, accum = 0\<rparr>)] ''b'' = Inr None
   \<and> integral [(''a'', \<lparr>key = ''a'', count = (0::real), isset = False, accum = 0\<rparr>)] ''b'' = Inr None"
proof -
  have u: "\<not> has [(''a'', \<lparr>key = ''a'', count = (0::real), isset = False, accum = 0\<rparr>)] ''b''"
    by (simp add: has_def)
  show ?thesis
    using u undefined_name_queries_absent [OF u] by simp
qed

subsection \<open>The status accessor\<close>

text \<open>
  Claim C10. In every state of the registry, \<^verbatim>\<open>status()\<close> raises \<^verbatim>\<open>NameError\<close>:
  the mangled name it reads is bound neither locally nor in the module, so the accessor
  never returns a value.
\<close>

theorem status_raises_NameError:
  "status r = Inl NameError"
  by (simp add: status_def lookup_name_def mangle_def module_globals_def)

section \<open>Claims about the analysis loop\<close>

subsection \<open>The progress signal\<close>

text \<open>
  Claim C3. When a progress line is due and the elapsed time since the start of the run is
  zero, \<^verbatim>\<open>_print_progress\<close> does not produce a zero estimate of the remaining time: the
  division \<^verbatim>\<open>current_entry/dt\<close> raises \<^verbatim>\<open>ZeroDivisionError\<close>. At entry 0 the start
  time has just been read, so the elapsed time is zero as soon as the next reading of the
  clock is the same microsecond.
\<close>

theorem print_progress_zero_elapsed_raises:
  assumes "print_frequency s \<noteq> 0"
      and "current_entry mod print_frequency s = 0"
      and "if current_entry = 0 then clock s (Suc (ticks s)) = clock s (ticks s)
           else clock s (ticks s) = start_time s"
  shows "print_progress s current_entry = Inl ZeroDivisionError"
  using assms
  by (simp add: print_progress_def progress_line_def now_def total_seconds_def Let_def
           split: if_splits)

theorem print_progress_zero_elapsed_raises_witness:
  "print_frequency (frozen_state [] 10 100) \<noteq> 0
   \<and> 0 mod print_frequency (frozen_state [] 10 100) = 0
   \<and> clock (frozen_state [] 10 100) (Suc (ticks (frozen_state [] 10 100)))
       = clock (frozen_state [] 10 100) (ticks (frozen_state [] 10 100))
   \<and> print_progress (frozen_state [] 10 100) 0 = Inl ZeroDivisionError"
proof -
  have f: "print_frequency (frozen_state [] 10 100) \<noteq> 0"
    by (simp add: frozen_state_def)
  have m: "0 mod print_frequency (frozen_state [] 10 100) = 0"
    by simp
  have c: "if (0::int) = 0
           then clock (frozen_state [] 10 100) (Suc (ticks (frozen_state [] 10 100)))
                  = clock (frozen_state [] 10 100) (ticks (frozen_state [] 10 100))
           else clock (frozen_state [] 10 100) (ticks (frozen_state [] 10 100))
                  = start_time (frozen_state [] 10 100)"
    by (simp add: frozen_state_def)
  show ?thesis
    using f m c print_progress_zero_elapsed_raises [OF f m c] by simp
qed

subsection \<open>The report after a failed hook\<close>

text \<open>
  A run whose setup method reports failure returns \<^verbatim>\<open>ErrFunc\<close> and has printed
  nothing; so does a run (here over no records) whose teardown method reports failure.
\<close>

theorem run_analysis_error_no_report_counterexample:
  "run_analysis failing_setup_module (start_state [] 10 100)
     = Inr (Some ErrFunc, start_state [] 10 100)
   \<and> out (start_state [] 10 100) = []
   \<and> run_analysis failing_teardown_module (start_state [] 0 100)
     = Inr (Some ErrFunc, start_state [] 0 100)
   \<and> out (start_state [] 0 100) = []"
  by (simp add: run_analysis_def failing_setup_module_def failing_teardown_module_def
        error_before_loop_def ok_before_loop_def error_after_loop_def entry_list_def
        start_state_def)

text \<open>
  Claim C1, as amended. When the setup method returns a status other than \<^verbatim>\<open>OKFunc\<close>,
  \<^verbatim>\<open>run_analysis\<close> returns \<^verbatim>\<open>ErrFunc\<close> at once, in the state the method left: no record
  is processed and no report is printed. When setup succeeds and the loop ends, the
  teardown method decides: on a status other than \<^verbatim>\<open>OKFunc\<close> the run returns
  \<^verbatim>\<open>ErrFunc\<close> in the state teardown left, again without a report; only on \<^verbatim>\<open>OKFunc\<close>
  is the report of the totals appended to the output.
\<close>

theorem run_analysis_report_only_on_success:
  "(user_before_loop h s = Inr (st1, s1) \<and> st1 \<noteq> OKFunc
      \<longrightarrow> run_analysis h s = Inr (Some ErrFunc, s1))
   \<and> (user_before_loop h s = Inr (OKFunc, s1)
        \<and> run_entries h s1 (entry_list (nentries s1)) = Inr s2
        \<and> user_after_loop h s2 = Inr (st2, s3)
      \<longrightarrow> run_analysis h s =
            (if st2 \<noteq> OKFunc then Inr (Some ErrFunc, s3)
             else Inr (None, s3\<lparr>out := out s3 @ output (flags s3)\<rparr>)))"
  by (simp add: run_analysis_def evs_output_def emit_def)

theorem run_analysis_report_only_on_success_witness:
  "user_before_loop failing_setup_module (start_state [] 10 100)
     = Inr (ErrFunc, start_state [] 10 100)
   \<and> ErrFunc \<noteq> OKFunc
   \<and> run_analysis failing_setup_module (start_state [] 10 100)
       = Inr (Some ErrFunc, start_state [] 10 100)
   \<and> user_before_loop failing_teardown_module (start_state [] 0 100)
       = Inr (OKFunc, start_state [] 0 100)
   \<and> run_entries failing_teardown_module (start_state [] 0 100)
         (entry_list (nentries (start_state [] 0 100))) = Inr (start_state [] 0 100)
   \<and> user_after_loop failing_teardown_module (start_state [] 0 100)
       = Inr (ErrFunc, start_state [] 0 100)
   \<and> run_analysis failing_teardown_module (start_state [] 0 100)
       = Inr (Some ErrFunc, start_state [] 0 100)"
proof -
  have b1: "user_before_loop failing_setup_module (start_state [] 10 100)
      = Inr (ErrFunc, start_state [] 10 100)"
    by (simp add: failing_setup_module_def error_before_loop_def)
  have b2: "user_before_loop failing_teardown_module (start_state [] 0 100)
      = Inr (OKFunc, start_state [] 0 100)"
    by (simp add: failing_teardown_module_def ok_before_loop_def)
  have l2: "run_entries failing_teardown_module (start_state [] 0 100)
      (entry_list (nentries (start_state [] 0 100))) = Inr (start_state [] 0 100)"
    by (simp add: start_state_def entry_list_0)
  have a2: "user_after_loop failing_teardown_module (start_state [] 0 100)
      = Inr (ErrFunc, start_state [] 0 100)"
    by (simp add: failing_teardown_module_def error_after_loop_def)
  show ?thesis
    using b1 b2 l2 a2
      run_analysis_report_only_on_success
        [where h = failing_setup_module and s = "start_state [] 10 100" and ?st1.0 = ErrFunc
           and ?s1.0 = "start_state [] 10 100"]
      run_analysis_report_only_on_success
        [where h = failing_teardown_module and s = "start_state [] 0 100"
           and ?s1.0 = "start_state [] 0 100" and ?s2.0 = "start_state [] 0 100"
           and ?st2.0 = ErrFunc and ?s3.0 = "start_state [] 0 100"]
    by simp
qed

subsection \<open>Leaving the loop early\<close>

text \<open>
  Claim C5. A run over 10 records whose event routine returns through \<^verbatim>\<open>quit_loop\<close>
  at entry 2 does not process three records and print the report whenever the two readings
  of the clock that \<^verbatim>\<open>_print_progress\<close> takes at entry 0 are the same microsecond: the
  run raises \<^verbatim>\<open>ZeroDivisionError\<close> at entry 0, before any record is loaded, whatever the
  flag logic of the event routine and whatever the print frequency (a progress line is
  due at entry 0 for every frequency but 0, and the frequency 0 makes \<^verbatim>\<open>%\<close> raise).
  The division that fails is the one of the progress signal with zero elapsed time.
\<close>

theorem abort_run_zero_elapsed_raises:
  assumes "nentries s = 10"
      and "clock s (Suc (ticks s)) = clock s (ticks s)"
  shows "run_analysis (abort_at 2 body) s = Inl ZeroDivisionError"
proof -
  have "print_progress (evs_clear s) 0 = Inl ZeroDivisionError"
    using assms(2) by (simp add: entry_0_same_reading evs_clear_def)
  then have "run_entries (abort_at 2 body) s (entry_list 10) = Inl ZeroDivisionError"
    by (simp add: entry_list_10 run_loop_def)
  then show ?thesis
    using assms(1) by (simp add: run_analysis_def abort_at_def ok_before_loop_def)
qed

theorem abort_run_zero_elapsed_raises_witness:
  "nentries (frozen_state [] 10 100) = 10
   \<and> clock (frozen_state [] 10 100) (Suc (ticks (frozen_state [] 10 100)))
       = clock (frozen_state [] 10 100) (ticks (frozen_state [] 10 100))
   \<and> run_analysis (abort_at 2 mark_seen) (frozen_state [] 10 100) = Inl ZeroDivisionError"
proof -
  have n: "nentries (frozen_state [] 10 100) = 10"
    by (simp add: frozen_state_def)
  have c: "clock (frozen_state [] 10 100) (Suc (ticks (frozen_state [] 10 100)))
       = clock (frozen_state [] 10 100) (ticks (frozen_state [] 10 100))"
    by (simp add: frozen_state_def)
  show ?thesis
    using n c abort_run_zero_elapsed_raises [OF n c, of mark_seen] by simp
qed

text \<open>
  The same run when the progress line of entry 0 does not fail. With print frequency 100
  and a clock whose second reading differs from its first, exactly the entries 0, 1 and 2
  are loaded and processed; the loop stops there; \<^verbatim>\<open>quit_loop\<close> has forced the
  progress signal for entry 9, the last of the 10, which at this frequency only ends the
  progress line; and the report that follows shows the totals of the flag logic of those
  three records, each applied to a cleared registry and accumulated.
\<close>

lemma abort_run_advancing_clock:
  assumes n: "nentries s = 10" and f: "print_frequency s = 100"
      and c: "clock s (Suc (ticks s)) \<noteq> clock s (ticks s)"
      and b0: "body 0 (clear (flags s)) = Inr r0"
      and b1: "body 1 (clear (accumulate r0)) = Inr r1"
      and b2: "body 2 (clear (accumulate r1)) = Inr r2"
  shows "run_analysis (abort_at 2 body) s =
     Inr (None, s\<lparr>flags := accumulate r2, start_time := clock s (ticks s),
                  prev_time := clock s (Suc (ticks s)), ticks := ticks s + 2,
                  out := out s @ [ProgressLine 0 10 0 0 0 0, GetEntry 0, GetEntry 1,
                                  GetEntry 2, NewLine] @ output (accumulate r2)\<rparr>)"
proof -
  define s0 where "s0 = s\<lparr>flags := accumulate r0, start_time := clock s (ticks s),
      prev_time := clock s (Suc (ticks s)), ticks := ticks s + 2,
      out := out s @ [ProgressLine 0 10 0 0 0 0, GetEntry 0]\<rparr>"
  define s1 where "s1 = s0\<lparr>flags := accumulate r1, out := out s0 @ [GetEntry 1]\<rparr>"
  define s2 where "s2 = s1\<lparr>flags := accumulate r2, out := out s1 @ [GetEntry 2, NewLine]\<rparr>"
  have e0: "run_loop (abort_at 2 body) (evs_clear s) 0 = Inr (OKEvent, s0)"
    using b0 by (simp add: run_loop_def first_entry [OF n f c] abort_at_def emit_def
        ok_event_def evs_accumulate_def s0_def)
  have n0: "nentries s0 = 10" "print_frequency s0 = 100" "flags s0 = accumulate r0"
    using n f by (simp_all add: s0_def)
  have e1: "run_loop (abort_at 2 body) (evs_clear s0) 1 = Inr (OKEvent, s1)"
    using b1 n0(3) by (simp add: run_loop_def silent_entry [OF n0(1) n0(2)] abort_at_def emit_def
        ok_event_def evs_accumulate_def s1_def)
  have n1: "nentries s1 = 10" "print_frequency s1 = 100" "flags s1 = accumulate r1"
    using n0 by (simp_all add: s1_def)
  have e2: "run_loop (abort_at 2 body) (evs_clear s1) 2 = Inr (QuitLoop, s2)"
    using b2 n1
    by (simp add: run_loop_def silent_entry [OF n1(1) n1(2)] abort_at_def emit_def
        quit_loop_def evs_accumulate_def last_signal s2_def Let_def)
  have "run_entries (abort_at 2 body) s (entry_list 10) = Inr s2"
    by (simp add: entry_list_10 e0 e1 e2)
  then show ?thesis
    using n by (simp add: run_analysis_def abort_at_def ok_before_loop_def ok_after_loop_def
        evs_output_def emit_def s2_def s1_def s0_def)
qed

lemma abort_run_advancing_clock_example:
  "nentries (start_state [] 10 100) = 10 \<and> print_frequency (start_state [] 10 100) = 100
   \<and> clock (start_state [] 10 100) (Suc (ticks (start_state [] 10 100)))
       \<noteq> clock (start_state [] 10 100) (ticks (start_state [] 10 100))
   \<and> run_analysis (abort_at 2 mark_seen) (start_state [] 10 100) =
       Inr (None,
         \<lparr>flags = [(''seen'', \<lparr>key = ''seen'', count = (0::real), isset = False, accum = 3\<rparr>)],
          nentries = 10, print_frequency = 100, start_time = 0, prev_time = 1,
          clock = int, ticks = 2,
          out = [ProgressLine 0 10 0 0 0 0, GetEntry 0, GetEntry 1, GetEntry 2, NewLine,
                 ReportHeader 1, ReportLine 3 ''seen'', BlankLine]\<rparr>)"
proof -
  have n: "nentries (start_state [] 10 100) = 10"
    and f: "print_frequency (start_state [] 10 100) = 100"
    and c: "clock (start_state [] 10 100) (Suc (ticks (start_state [] 10 100)))
       \<noteq> clock (start_state [] 10 100) (ticks (start_state [] 10 100))"
    by (simp_all add: start_state_def)
  have b0: "mark_seen 0 (clear (flags (start_state [] 10 100)))
      = Inr [(''seen'', \<lparr>key = ''seen'', count = (1::real), isset = True, accum = 0\<rparr>)]"
    by (simp add: start_state_def clear_def mark_seen_eval)
  have b1: "mark_seen 1 (clear (accumulate
        [(''seen'', \<lparr>key = ''seen'', count = (1::real), isset = True, accum = 0\<rparr>)]))
      = Inr [(''seen'', \<lparr>key = ''seen'', count = (1::real), isset = True, accum = 1\<rparr>)]"
    by (simp add: clear_def accumulate_def mark_seen_eval)
  have b2: "mark_seen 2 (clear (accumulate
        [(''seen'', \<lparr>key = ''seen'', count = (1::real), isset = True, accum = 1\<rparr>)]))
      = Inr [(''seen'', \<lparr>key = ''seen'', count = (1::real), isset = True, accum = 2\<rparr>)]"
    by (simp add: clear_def accumulate_def mark_seen_eval)
  show ?thesis
    using n f c abort_run_advancing_clock [OF n f c b0 b1 b2]
    by (simp add: start_state_def accumulate_def output_def ndef_def)
qed

subsection \<open>Clearing before and accumulating after the event routine\<close>

text \<open>
  An event routine that sets a flag to 1 in each of two records and returns
  \<^verbatim>\<open>OKEvent\<close> itself: both records are processed, \<^verbatim>\<open>accumulate\<close> never runs, the
  report shows the total 0 and the flag still holds the value 1 of the last record.
\<close>

theorem raw_status_never_accumulates_counterexample:
  "run_analysis raw_status_module
     (start_state [(''a'', \<lparr>key = ''a'', count = (0::real), isset = False, accum = 0\<rparr>)] 2 100)
   = Inr (None,
       \<lparr>flags = [(''a'', \<lparr>key = ''a'', count = (1::real), isset = True, accum = 0\<rparr>)],
        nentries = 2, print_frequency = 100, start_time = 0, prev_time = 1,
        clock = int, ticks = 2,
        out = [ProgressLine 0 2 0 0 0 0, GetEntry 0, NewLine, GetEntry 1,
               ReportHeader 1, ReportLine 0 ''a'', BlankLine]\<rparr>)"
  by (simp add: run_analysis_def raw_status_module_def start_state_def ok_before_loop_def
        ok_after_loop_def entry_list_2 run_loop_def print_progress_def progress_line_def now_def
        total_seconds_def Let_def emit_def evs_clear_def clear_def py_floordiv_def py_mod_def
        set_evs_def has_def setattr_flag_def dict_getitem_def evs_output_def output_def ndef_def)

text \<open>
  Claim C8, as amended. In every run, with any hooks, the event routine of every
  processed record starts on a registry in which every flag has the current value 0 and is
  unset: a check of this on entry to the routine never fails, so the run with the check is
  the run without it, and nothing of a record's current values reaches the next record.
  \<^verbatim>\<open>accumulate\<close> is not called by the loop: it is the first step of the three return
  helpers, so it runs at the end of the event routine when the routine returns through
  \<^verbatim>\<open>ok_event\<close>, \<^verbatim>\<open>skip_event\<close> or \<^verbatim>\<open>quit_loop\<close>.
\<close>

theorem event_routine_starts_cleared:
  "run_analysis (asserting_cleared h) s = run_analysis h s
   \<and> ok_event st = Inr (OKEvent, st\<lparr>flags := accumulate (flags st)\<rparr>)
   \<and> skip_event st = Inr (SkipEvent, st\<lparr>flags := accumulate (flags st)\<rparr>)
   \<and> quit_loop st =
       (case print_progress (st\<lparr>flags := accumulate (flags st)\<rparr>) (nentries st - 1) of
          Inl e \<Rightarrow> Inl e | Inr (_, st') \<Rightarrow> Inr (QuitLoop, st'))"
proof -
  have b: "user_before_loop (asserting_cleared h) = user_before_loop h"
    and a: "user_after_loop (asserting_cleared h) = user_after_loop h"
    by (simp_all add: asserting_cleared_def)
  have "run_analysis (asserting_cleared h) s = run_analysis h s"
    unfolding run_analysis_def run_entries_asserting a b by (rule refl)
  then show ?thesis
    by (simp add: ok_event_def skip_event_def quit_loop_def evs_accumulate_def Let_def)
qed

end
